theory Spec2Isabelle
  imports Main
begin

section \<open>The documents table\<close>

text \<open>
  The document operations of \<^verbatim>\<open>sensei/database/storage.py\<close> run against one PostgreSQL
  table, \<^verbatim>\<open>documents\<close>, created by migration 001 and extended by migration 004. A row is
  a record; the table is the list of its rows, in the order the rows were inserted.

  The class \<^verbatim>\<open>Document\<close> (\<^verbatim>\<open>sensei/database/models.py\<close>) is not among the sources. The
  record below has the attributes that \<^verbatim>\<open>storage.py\<close> reads and writes (\<^verbatim>\<open>domain\<close>,
  \<^verbatim>\<open>url\<close>, \<^verbatim>\<open>path\<close>, \<^verbatim>\<open>content\<close>, \<^verbatim>\<open>content_hash\<close>, \<^verbatim>\<open>depth\<close>,
  \<^verbatim>\<open>content_refreshed_at\<close>) and the remaining columns of the two migrations. Migration 004
  drops the column \<^verbatim>\<open>depth\<close>; \<^verbatim>\<open>save_document\<close> still passes and assigns it, so the
  attribute is kept here.

  UUIDs are natural numbers, timestamps are integers (instants of the server clock).
\<close>

type_synonym uuid = nat
type_synonym timestamp = int

record document =
  doc_id :: uuid
  domain :: string
  url :: string
  path :: string
  content :: string
  content_hash :: string
  content_refreshed_at :: timestamp
  depth :: int
  generation_id :: uuid
  generation_active :: bool
  inserted_at :: timestamp
  updated_at :: timestamp

text \<open>
  The database state: the rows of \<^verbatim>\<open>documents\<close> and a counter that stands for
  \<^verbatim>\<open>gen_random_uuid()\<close>, the server default of the primary key. Every call of the
  generator returns the counter and advances it, so a generated UUID is new; a collision
  of random UUIDs is outside the model.
\<close>

record database =
  documents :: "document list"
  uuid_counter :: nat

definition empty_database :: database where
  "empty_database = \<lparr>documents = [], uuid_counter = 0\<rparr>"

text \<open>
  What a call takes from its environment: the clock (\<^verbatim>\<open>datetime.now(UTC)\<close> and the
  server's \<^verbatim>\<open>now()\<close>), and two facts of the missing \<^verbatim>\<open>Document\<close> declaration, taken as
  parameters: the value a new row gets for \<^verbatim>\<open>generation_id\<close> (migration 004 makes the
  column NOT NULL without a server default, and \<^verbatim>\<open>save_document\<close> passes none), and
  whether \<^verbatim>\<open>updated_at\<close> is declared with \<^verbatim>\<open>onupdate=now()\<close>.
\<close>

record env =
  now :: timestamp
  generation_default :: uuid
  updated_at_onupdate :: bool

datatype SaveResult = INSERTED | UPDATED | SKIPPED

datatype error = MultipleResultsFound | IntegrityError | InvalidRowCountInLimit

section \<open>Reading one row by url\<close>

text \<open>
  \<^verbatim>\<open>session.execute(select(Document).where(Document.url == url))\<close> followed by
  \<^verbatim>\<open>scalar_one_or_none()\<close>: no row gives \<^verbatim>\<open>None\<close>, one row gives the row, more than one
  raises \<^verbatim>\<open>MultipleResultsFound\<close>.
\<close>

definition select_by_url :: "string \<Rightarrow> database \<Rightarrow> document list" where
  "select_by_url u db = filter (\<lambda>r. url r = u) (documents db)"

fun scalar_one_or_none :: "'a list \<Rightarrow> error + 'a option" where
  "scalar_one_or_none [] = Inr None"
| "scalar_one_or_none [x] = Inr (Some x)"
| "scalar_one_or_none (x # y # zs) = Inl MultipleResultsFound"

definition get_document_by_url :: "string \<Rightarrow> database \<Rightarrow> error + document option" where
  "get_document_by_url u db = scalar_one_or_none (select_by_url u db)"

section \<open>save_document\<close>

text \<open>
  The unit of work flushes the changed attributes of the loaded object with
  \<^verbatim>\<open>UPDATE documents SET ... WHERE id = :id\<close>: the row with the primary key of
  \<^verbatim>\<open>existing\<close> gets the four assigned attributes, and \<^verbatim>\<open>updated_at\<close> when the column is
  declared with an on-update default.
\<close>

definition assign_content :: "env \<Rightarrow> string \<Rightarrow> string \<Rightarrow> int \<Rightarrow> document \<Rightarrow> document" where
  "assign_content e c h dep r =
     r\<lparr>content := c, content_hash := h, depth := dep,
       content_refreshed_at := now e,
       updated_at := (if updated_at_onupdate e then now e else updated_at r)\<rparr>"

definition update_document ::
  "env \<Rightarrow> document \<Rightarrow> string \<Rightarrow> string \<Rightarrow> int \<Rightarrow> database \<Rightarrow> database" where
  "update_document e existing c h dep db =
     db\<lparr>documents :=
          map (\<lambda>r. if doc_id r = doc_id existing then assign_content e c h dep r else r)
            (documents db)\<rparr>"

text \<open>
  \<^verbatim>\<open>Document(domain=..., url=..., path=..., content=..., content_hash=..., depth=...)\<close>:
  the other columns take their defaults: \<^verbatim>\<open>id\<close> from \<^verbatim>\<open>gen_random_uuid()\<close>, the three
  timestamps from \<^verbatim>\<open>now()\<close> (migration 001), \<^verbatim>\<open>generation_active\<close> from the server
  default \<^verbatim>\<open>false\<close> (migration 004).
\<close>

definition new_document ::
  "env \<Rightarrow> uuid \<Rightarrow> string \<Rightarrow> string \<Rightarrow> string \<Rightarrow> string \<Rightarrow> string \<Rightarrow> int \<Rightarrow> document" where
  "new_document e i d u p c h dep =
     \<lparr>doc_id = i, domain = d, url = u, path = p, content = c, content_hash = h,
      content_refreshed_at = now e, depth = dep,
      generation_id = generation_default e, generation_active = False,
      inserted_at = now e, updated_at = now e\<rparr>"

text \<open>
  \<^verbatim>\<open>session.add(doc); await session.commit()\<close>: the INSERT is refused with
  \<^verbatim>\<open>IntegrityError\<close> when the url is already in the table
  (\<^verbatim>\<open>sa.UniqueConstraint("url")\<close>), and the transaction is rolled back.
\<close>

definition insert_document :: "document \<Rightarrow> database \<Rightarrow> (error + unit) \<times> database" where
  "insert_document r db =
     (if url r \<in> set (map url (documents db))
      then (Inl IntegrityError, db\<lparr>uuid_counter := Suc (uuid_counter db)\<rparr>)
      else (Inr (), \<lparr>documents = documents db @ [r], uuid_counter = Suc (uuid_counter db)\<rparr>))"

definition save_document ::
  "env \<Rightarrow> string \<Rightarrow> string \<Rightarrow> string \<Rightarrow> string \<Rightarrow> string \<Rightarrow> int \<Rightarrow> database
     \<Rightarrow> (error + SaveResult) \<times> database" where
  "save_document e d u p c h dep db =
     (case scalar_one_or_none (select_by_url u db) of
        Inl err \<Rightarrow> (Inl err, db)
      | Inr (Some existing) \<Rightarrow>
          if content_hash existing = h then (Inr SKIPPED, db)
          else (Inr UPDATED, update_document e existing c h dep db)
      | Inr None \<Rightarrow>
          (case insert_document (new_document e (uuid_counter db) d u p c h dep) db of
             (Inl err, db') \<Rightarrow> (Inl err, db')
           | (Inr _, db') \<Rightarrow> (Inr INSERTED, db')))"

section \<open>search_documents\<close>

text \<open>
  \<^verbatim>\<open>Document.content.icontains(query, autoescape=True)\<close> is a case-insensitive match of
  the query as a literal substring (the wildcards of the query are escaped): PostgreSQL
  folds the content and the query to lower case under the locale of the database and
  looks for the one in the other. The folding belongs to the database and not to the
  repository: it is the parameter \<open>to_lower\<close> of the search, a function on texts of which
  nothing is assumed.
\<close>

fun starts_with :: "'a list \<Rightarrow> 'a list \<Rightarrow> bool" where
  "starts_with xs [] = True"
| "starts_with [] (p # ps) = False"
| "starts_with (x # xs) (p # ps) = (x = p \<and> starts_with xs ps)"

fun contains :: "'a list \<Rightarrow> 'a list \<Rightarrow> bool" where
  "contains [] ps = (ps = [])"
| "contains (x # xs) ps = (starts_with (x # xs) ps \<or> contains xs ps)"

definition icontains :: "(string \<Rightarrow> string) \<Rightarrow> string \<Rightarrow> string \<Rightarrow> bool" where
  "icontains to_lower text query = contains (to_lower text) (to_lower query)"

text \<open>
  The statement has no ORDER BY: the rows come in table order here. A negative
  \<^verbatim>\<open>LIMIT\<close> is refused by PostgreSQL. \<^verbatim>\<open>if domain:\<close> is false for \<^verbatim>\<open>None\<close> and for the
  empty string.
\<close>

definition domain_given :: "string option \<Rightarrow> bool" where
  "domain_given dmn = (case dmn of None \<Rightarrow> False | Some d \<Rightarrow> d \<noteq> [])"

definition search_documents ::
  "(string \<Rightarrow> string) \<Rightarrow> string \<Rightarrow> string option \<Rightarrow> int \<Rightarrow> database
     \<Rightarrow> error + document list" where
  "search_documents to_lower query dmn limit db =
     (let stmt = documents db;
          stmt = (if domain_given dmn then filter (\<lambda>r. Some (domain r) = dmn) stmt else stmt);
          stmt = filter (\<lambda>r. icontains to_lower (content r) query) stmt
      in if limit < 0 then Inl InvalidRowCountInLimit else Inr (take (nat limit) stmt))"

section \<open>delete_documents_by_domain\<close>

text \<open>
  \<^verbatim>\<open>delete(Document).where(Document.domain == domain)\<close>; the result is
  \<^verbatim>\<open>result.rowcount\<close>, the number of rows the statement deleted.
\<close>

definition delete_documents_by_domain :: "string \<Rightarrow> database \<Rightarrow> nat \<times> database" where
  "delete_documents_by_domain d db =
     (length (filter (\<lambda>r. domain r = d) (documents db)),
      db\<lparr>documents := filter (\<lambda>r. domain r \<noteq> d) (documents db)\<rparr>)"

section \<open>Migration 004: generations\<close>

text \<open>
  The data step of \<^verbatim>\<open>upgrade()\<close> in \<^verbatim>\<open>004_generation_based_crawls.py\<close>. The two
  \<^verbatim>\<open>add_column\<close> calls leave \<^verbatim>\<open>generation_id\<close> NULL in every row that is already in
  the table, so
  \<^verbatim>\<open>UPDATE documents SET generation_id = gen_random_uuid(), generation_active = true
  WHERE generation_id IS NULL\<close>
  rewrites every row: each gets a generation of its own and is marked active. The
  generation fields of the rows given to \<open>upgrade\<close> stand for columns that do not exist
  yet, and are overwritten.
\<close>

fun backfill_generations :: "uuid \<Rightarrow> document list \<Rightarrow> document list" where
  "backfill_generations g [] = []"
| "backfill_generations g (r # rs) =
     r\<lparr>generation_id := g, generation_active := True\<rparr> # backfill_generations (Suc g) rs"

definition upgrade :: "database \<Rightarrow> database" where
  "upgrade db =
     \<lparr>documents = backfill_generations (uuid_counter db) (documents db),
      uuid_counter = uuid_counter db + length (documents db)\<rparr>"

section \<open>Constraints, invariants, runs\<close>

text \<open>
  The constraints of the schema (migration 001): \<^verbatim>\<open>PrimaryKeyConstraint("id")\<close> and
  \<^verbatim>\<open>UniqueConstraint("url")\<close>; and every primary key in the table was generated, so it
  is below the counter.
\<close>

definition table_constraints :: "database \<Rightarrow> bool" where
  "table_constraints db =
     (distinct (map doc_id (documents db)) \<and> distinct (map url (documents db)) \<and>
      (\<forall>r \<in> set (documents db). doc_id r < uuid_counter db))"

text \<open>
  The invariant of the generations: within a domain, next to an active row the active
  rows are exactly the rows of its generation. So the active rows of a domain share one
  generation, and a generation with an active row has no inactive row in that domain.
\<close>

definition generation_invariant :: "document list \<Rightarrow> bool" where
  "generation_invariant rows =
     (\<forall>r1 \<in> set rows. \<forall>r2 \<in> set rows.
        generation_active r1 \<and> domain r2 = domain r1 \<longrightarrow>
        generation_active r2 = (generation_id r2 = generation_id r1))"

text \<open>
  The first half of the invariant alone: the active rows of a domain share one
  generation.
\<close>

definition one_active_generation :: "document list \<Rightarrow> bool" where
  "one_active_generation rows =
     (\<forall>r1 \<in> set rows. \<forall>r2 \<in> set rows.
        generation_active r1 \<and> generation_active r2 \<and> domain r2 = domain r1 \<longrightarrow>
        generation_id r2 = generation_id r1)"

text \<open>The states that the operations of \<^verbatim>\<open>storage.py\<close> reach from the empty table.\<close>

inductive store_reachable :: "database \<Rightarrow> bool" where
  reach_empty: "store_reachable empty_database"
| reach_save: "store_reachable db \<Longrightarrow> store_reachable (snd (save_document e d u p c h dep db))"
| reach_delete: "store_reachable db \<Longrightarrow> store_reachable (snd (delete_documents_by_domain d db))"

text \<open>A sequence of calls of \<^verbatim>\<open>save_document\<close>, each with its arguments and its clock.\<close>

type_synonym save_call = "env \<times> string \<times> string \<times> string \<times> string \<times> string \<times> int"

fun save_documents :: "save_call list \<Rightarrow> database \<Rightarrow> database" where
  "save_documents [] db = db"
| "save_documents ((e, d, u, p, c, h, dep) # calls) db =
     save_documents calls (snd (save_document e d u p c h dep db))"

section \<open>Sample data\<close>

text \<open>
  The folding of a database whose locale is \<^verbatim>\<open>C\<close>: there \<^verbatim>\<open>lower()\<close> changes the
  letters A to Z and nothing else. The sample searches run under it, on texts of ASCII
  characters.
\<close>

definition c_locale_lower_char :: "char \<Rightarrow> char" where
  "c_locale_lower_char c =
     (case map_of (zip ''ABCDEFGHIJKLMNOPQRSTUVWXYZ'' ''abcdefghijklmnopqrstuvwxyz'') c of
        None \<Rightarrow> c
      | Some l \<Rightarrow> l)"

definition c_locale_lower :: "string \<Rightarrow> string" where
  "c_locale_lower = map c_locale_lower_char"

definition env_at :: "timestamp \<Rightarrow> env" where
  "env_at t = \<lparr>now = t, generation_default = 9, updated_at_onupdate = True\<rparr>"

definition react_hooks :: document where
  "react_hooks =
     \<lparr>doc_id = 0, domain = ''react.dev'', url = ''https://react.dev/hooks'', path = ''/hooks'',
      content = ''# React Hooks'', content_hash = ''h1'', content_refreshed_at = 1, depth = 0,
      generation_id = 7, generation_active = False, inserted_at = 1, updated_at = 1\<rparr>"

definition react_components :: document where
  "react_components =
     \<lparr>doc_id = 1, domain = ''react.dev'', url = ''https://react.dev/components'',
      path = ''/components'', content = ''# REACT Components'', content_hash = ''h2'',
      content_refreshed_at = 2, depth = 0,
      generation_id = 7, generation_active = False, inserted_at = 2, updated_at = 2\<rparr>"

definition vue_guide :: document where
  "vue_guide =
     \<lparr>doc_id = 2, domain = ''vue.io'', url = ''https://vue.io/guide'', path = ''/guide'',
      content = ''# Vue Guide'', content_hash = ''h3'', content_refreshed_at = 3, depth = 0,
      generation_id = 8, generation_active = False, inserted_at = 3, updated_at = 3\<rparr>"

definition sample_database :: database where
  "sample_database = \<lparr>documents = [react_hooks, react_components, vue_guide], uuid_counter = 3\<rparr>"

text \<open>A table from before migration 004, with one document in each of two domains.\<close>

definition legacy_database :: database where
  "legacy_database = \<lparr>documents = [react_hooks, vue_guide], uuid_counter = 3\<rparr>"

section \<open>Basic facts\<close>

lemma starts_with_iff: "starts_with xs ps \<longleftrightarrow> (\<exists>b. xs = ps @ b)"
  by (induction xs ps rule: starts_with.induct) auto

lemma contains_iff: "contains xs ps \<longleftrightarrow> (\<exists>a b. xs = a @ ps @ b)"
proof (induction xs)
  case Nil
  show ?case by auto
next
  case (Cons x xs)
  show ?case
  proof
    assume "contains (x # xs) ps"
    then consider "starts_with (x # xs) ps" | "contains xs ps" by auto
    then show "\<exists>a b. x # xs = a @ ps @ b"
    proof cases
      case 1
      then obtain b where "x # xs = ps @ b" using starts_with_iff by blast
      then have "x # xs = [] @ ps @ b" by simp
      then show ?thesis by blast
    next
      case 2
      then obtain a b where "xs = a @ ps @ b" using Cons.IH by blast
      then have "x # xs = (x # a) @ ps @ b" by simp
      then show ?thesis by blast
    qed
  next
    assume "\<exists>a b. x # xs = a @ ps @ b"
    then obtain a b where ab: "x # xs = a @ ps @ b" by blast
    show "contains (x # xs) ps"
    proof (cases a)
      case Nil
      with ab have "starts_with (x # xs) ps" using starts_with_iff by auto
      then show ?thesis by simp
    next
      case (Cons y ys)
      with ab have "xs = ys @ ps @ b" by simp
      then have "contains xs ps" using Cons.IH by blast
      then show ?thesis by simp
    qed
  qed
qed

lemma filter_unique:
  "distinct (map f xs) \<Longrightarrow> x \<in> set xs \<Longrightarrow> filter (\<lambda>y. f y = f x) xs = [x]"
  by (induction xs) (auto simp: filter_empty_conv image_iff)

lemma select_by_url_none:
  "\<forall>r \<in> set (documents db). url r \<noteq> u \<Longrightarrow> select_by_url u db = []"
  by (simp add: select_by_url_def filter_empty_conv)

lemma select_by_url_one:
  assumes "distinct (map url (documents db))" "r \<in> set (documents db)" "url r = u"
  shows "select_by_url u db = [r]"
  using assms filter_unique [of url "documents db" r]
  by (simp add: select_by_url_def)

lemma assign_content_kept [simp]:
  "doc_id (assign_content e c h dep r) = doc_id r"
  "domain (assign_content e c h dep r) = domain r"
  "url (assign_content e c h dep r) = url r"
  "path (assign_content e c h dep r) = path r"
  "generation_id (assign_content e c h dep r) = generation_id r"
  "generation_active (assign_content e c h dep r) = generation_active r"
  "inserted_at (assign_content e c h dep r) = inserted_at r"
  by (simp_all add: assign_content_def)

lemma assign_content_set [simp]:
  "content (assign_content e c h dep r) = c"
  "content_hash (assign_content e c h dep r) = h"
  "depth (assign_content e c h dep r) = dep"
  "content_refreshed_at (assign_content e c h dep r) = now e"
  by (simp_all add: assign_content_def)

lemma save_document_insert:
  assumes "\<forall>r \<in> set (documents db). url r \<noteq> u"
  shows "save_document e d u p c h dep db =
           (Inr INSERTED,
            \<lparr>documents = documents db @ [new_document e (uuid_counter db) d u p c h dep],
             uuid_counter = Suc (uuid_counter db)\<rparr>)"
proof -
  have "url (new_document e (uuid_counter db) d u p c h dep) = u"
    by (simp add: new_document_def)
  with assms show ?thesis
    by (auto simp: save_document_def select_by_url_none insert_document_def)
qed

lemma save_document_skip:
  assumes "distinct (map url (documents db))" "r \<in> set (documents db)" "url r = u"
    and "content_hash r = h"
  shows "save_document e d u p c h dep db = (Inr SKIPPED, db)"
  using assms by (simp add: save_document_def select_by_url_one)

lemma save_document_update:
  assumes "distinct (map url (documents db))" "r \<in> set (documents db)" "url r = u"
    and "content_hash r \<noteq> h"
  shows "save_document e d u p c h dep db = (Inr UPDATED, update_document e r c h dep db)"
  using assms by (simp add: save_document_def select_by_url_one)

lemma update_document_maps [simp]:
  "map doc_id (documents (update_document e x c h dep db)) = map doc_id (documents db)"
  "map url (documents (update_document e x c h dep db)) = map url (documents db)"
  "map domain (documents (update_document e x c h dep db)) = map domain (documents db)"
  "map path (documents (update_document e x c h dep db)) = map path (documents db)"
  "map generation_id (documents (update_document e x c h dep db)) = map generation_id (documents db)"
  "map generation_active (documents (update_document e x c h dep db)) =
     map generation_active (documents db)"
  "uuid_counter (update_document e x c h dep db) = uuid_counter db"
  by (simp_all add: update_document_def)

text \<open>
  Every call, whatever it finds, leaves the table as it is, rewrites one row that has the
  url, or appends a row for a url that was absent.
\<close>

lemma save_document_cases:
  obtains (unchanged) "documents (snd (save_document e d u p c h dep db)) = documents db"
      "fst (save_document e d u p c h dep db) \<noteq> Inr INSERTED"
  | (updated) x where "snd (save_document e d u p c h dep db) = update_document e x c h dep db"
      "fst (save_document e d u p c h dep db) = Inr UPDATED" "x \<in> set (documents db)" "url x = u"
  | (inserted) "\<forall>r \<in> set (documents db). url r \<noteq> u"
      "fst (save_document e d u p c h dep db) = Inr INSERTED"
      "snd (save_document e d u p c h dep db) =
         \<lparr>documents = documents db @ [new_document e (uuid_counter db) d u p c h dep],
          uuid_counter = Suc (uuid_counter db)\<rparr>"
proof (cases "select_by_url u db")
  case Nil
  then have none: "\<forall>r \<in> set (documents db). url r \<noteq> u"
    by (auto simp: select_by_url_def filter_empty_conv)
  show ?thesis using inserted [OF none] save_document_insert [OF none, of e d p c h dep] by simp
next
  case (Cons x xs)
  then have x: "x \<in> set (documents db)" "url x = u"
    by (auto simp: select_by_url_def filter_eq_Cons_iff)
  show ?thesis
  proof (cases xs)
    case Nil
    with Cons show ?thesis using x unchanged updated
      by (cases "content_hash x = h") (auto simp: save_document_def)
  next
    case (Cons y ys)
    with \<open>select_by_url u db = x # xs\<close> show ?thesis using unchanged
      by (auto simp: save_document_def)
  qed
qed

subsection \<open>The constraints are kept\<close>

lemma table_constraints_update:
  "table_constraints db \<Longrightarrow> table_constraints (update_document e x c h dep db)"
proof -
  assume tc: "table_constraints db"
  have "\<forall>r \<in> set (documents (update_document e x c h dep db)). doc_id r < uuid_counter db"
    using tc by (auto simp: table_constraints_def update_document_def)
  with tc show ?thesis by (simp add: table_constraints_def)
qed

lemma stored_after_update:
  assumes "table_constraints db" "r \<in> set (documents db)" "url r = u"
  shows "get_document_by_url u (update_document e r c h dep db) =
           Inr (Some (assign_content e c h dep r))"
proof -
  have "assign_content e c h dep r \<in> set (documents (update_document e r c h dep db))"
    using assms(2) by (auto simp: update_document_def image_iff)
  moreover have "distinct (map url (documents (update_document e r c h dep db)))"
    using assms(1) by (simp add: table_constraints_def)
  ultimately show ?thesis
    using assms(3) select_by_url_one [of "update_document e r c h dep db" "assign_content e c h dep r" u]
    by (simp add: get_document_by_url_def)
qed

lemma table_constraints_save:
  assumes "table_constraints db"
  shows "table_constraints (snd (save_document e d u p c h dep db))"
proof (cases e d u p c h dep db rule: save_document_cases)
  case unchanged
  have "uuid_counter db \<le> uuid_counter (snd (save_document e d u p c h dep db))"
    by (auto simp: save_document_def insert_document_def
        split: sum.splits option.splits prod.splits if_splits)
  with assms unchanged show ?thesis by (fastforce simp: table_constraints_def)
next
  case (updated x)
  with assms show ?thesis by (simp add: table_constraints_update)
next
  case inserted
  have "url (new_document e (uuid_counter db) d u p c h dep) = u"
    "doc_id (new_document e (uuid_counter db) d u p c h dep) = uuid_counter db"
    by (simp_all add: new_document_def)
  with assms inserted show ?thesis
    by (fastforce simp: table_constraints_def)
qed

lemma other_rows_after_update:
  assumes "table_constraints db" "r \<in> set (documents db)" "x \<in> set (documents db)" "x \<noteq> r"
  shows "x \<in> set (documents (update_document e r c h dep db))"
proof -
  have "distinct (map doc_id (documents db))"
    using assms(1) by (simp add: table_constraints_def)
  with assms(2,3,4) have "doc_id x \<noteq> doc_id r"
    by (auto simp: distinct_map inj_on_def)
  with assms(3) show ?thesis
    by (force simp: update_document_def image_iff)
qed

lemma generation_active_after_save:
  "map generation_active (documents (snd (save_document e d u p c h dep db))) =
     map generation_active (documents db) @
       (if fst (save_document e d u p c h dep db) = Inr INSERTED then [False] else [])"
proof (cases e d u p c h dep db rule: save_document_cases)
  case unchanged
  then show ?thesis by simp
next
  case (updated x)
  then show ?thesis by simp
next
  case inserted
  moreover have "generation_active (new_document e (uuid_counter db) d u p c h dep) = False"
    by (simp add: new_document_def)
  ultimately show ?thesis by simp
qed

lemma table_constraints_empty: "table_constraints empty_database"
  by (simp add: table_constraints_def empty_database_def)

lemma table_constraints_save_documents:
  "table_constraints db \<Longrightarrow> table_constraints (save_documents calls db)"
proof (induction calls arbitrary: db)
  case Nil
  then show ?case by simp
next
  case (Cons call calls)
  obtain e d u p c h dep where call: "call = (e, d, u, p, c, h, dep)"
    by (cases call) auto
  have "table_constraints (snd (save_document e d u p c h dep db))"
    using Cons.prems by (rule table_constraints_save)
  then show ?case using Cons.IH call by simp
qed

lemma existing_row_not_inserted:
  assumes "r \<in> set (documents db)" "url r = u"
  shows "map url (documents (snd (save_document e d u p c h dep db))) = map url (documents db)"
    and "map domain (documents (snd (save_document e d u p c h dep db))) = map domain (documents db)"
    and "map path (documents (snd (save_document e d u p c h dep db))) = map path (documents db)"
proof -
  show "map url (documents (snd (save_document e d u p c h dep db))) = map url (documents db)"
    using assms by (cases e d u p c h dep db rule: save_document_cases) auto
  show "map domain (documents (snd (save_document e d u p c h dep db))) = map domain (documents db)"
    using assms by (cases e d u p c h dep db rule: save_document_cases) auto
  show "map path (documents (snd (save_document e d u p c h dep db))) = map path (documents db)"
    using assms by (cases e d u p c h dep db rule: save_document_cases) auto
qed

subsection \<open>Rewriting one row in place\<close>

lemma update_document_in_place:
  assumes "distinct (map doc_id (documents db))" and "i < length (documents db)"
  shows "documents (update_document e (documents db ! i) c h dep db) =
           (documents db)[i := assign_content e c h dep (documents db ! i)]"
proof (rule nth_equalityI)
  show "length (documents (update_document e (documents db ! i) c h dep db)) =
      length ((documents db)[i := assign_content e c h dep (documents db ! i)])"
    by (simp add: update_document_def)
next
  fix j
  assume "j < length (documents (update_document e (documents db ! i) c h dep db))"
  then have j: "j < length (documents db)"
    by (simp add: update_document_def)
  have "(doc_id (documents db ! j) = doc_id (documents db ! i)) = (j = i)"
    using assms j nth_eq_iff_index_eq [of "map doc_id (documents db)" j i] by simp
  then show "documents (update_document e (documents db ! i) c h dep db) ! j =
      (documents db)[i := assign_content e c h dep (documents db ! i)] ! j"
    using j by (simp add: update_document_def nth_list_update)
qed

subsection \<open>The search as one filter\<close>

lemma search_documents_filter:
  "search_documents to_lower q dmn limit db =
     (if limit < 0 then Inl InvalidRowCountInLimit
      else Inr (take (nat limit)
             (filter (\<lambda>r. (domain_given dmn \<longrightarrow> Some (domain r) = dmn) \<and>
                        icontains to_lower (content r) q)
                (documents db))))"
  by (simp add: search_documents_def Let_def)

lemma icontains_iff:
  "icontains to_lower t q \<longleftrightarrow> (\<exists>a b. to_lower t = a @ to_lower q @ b)"
  by (simp add: icontains_def contains_iff)

lemma icontains_self: "icontains to_lower t t"
  unfolding icontains_iff
proof (intro exI)
  show "to_lower t = [] @ to_lower t @ []" by simp
qed

text \<open>
  What every search returns, whatever the folding: with a limit that is not negative a
  list, of at most \<open>limit\<close> rows of the table, each matching the term and of the given
  domain when a non-empty domain is given; all of these rows when the list is shorter than
  the limit; and no row when no row of the given domain matches.
\<close>

lemma search_documents_result:
  "(0 \<le> limit \<longrightarrow> (\<exists>res. search_documents to_lower q dmn limit db = Inr res)) \<and>
   (\<forall>res. search_documents to_lower q dmn limit db = Inr res \<longrightarrow>
      int (length res) \<le> limit \<and>
      (\<forall>r \<in> set res. r \<in> set (documents db) \<and> icontains to_lower (content r) q \<and>
         (domain_given dmn \<longrightarrow> Some (domain r) = dmn)) \<and>
      (int (length res) < limit \<longrightarrow>
         (\<forall>r \<in> set (documents db).
            icontains to_lower (content r) q \<and> (domain_given dmn \<longrightarrow> Some (domain r) = dmn) \<longrightarrow>
            r \<in> set res))) \<and>
   (0 \<le> limit \<and> d \<noteq> [] \<and>
    (\<forall>r \<in> set (documents db). icontains to_lower (content r) q \<longrightarrow> domain r \<noteq> d) \<longrightarrow>
      search_documents to_lower q (Some d) limit db = Inr [])"
proof -
  let ?P = "\<lambda>r. (domain_given dmn \<longrightarrow> Some (domain r) = dmn) \<and> icontains to_lower (content r) q"
  let ?ms = "filter ?P (documents db)"
  have returns: "0 \<le> limit \<longrightarrow> (\<exists>res. search_documents to_lower q dmn limit db = Inr res)"
    by (simp add: search_documents_filter)
  have sound: "\<forall>res. search_documents to_lower q dmn limit db = Inr res \<longrightarrow>
      int (length res) \<le> limit \<and>
      (\<forall>r \<in> set res. r \<in> set (documents db) \<and> icontains to_lower (content r) q \<and>
         (domain_given dmn \<longrightarrow> Some (domain r) = dmn)) \<and>
      (int (length res) < limit \<longrightarrow>
         (\<forall>r \<in> set (documents db).
            icontains to_lower (content r) q \<and> (domain_given dmn \<longrightarrow> Some (domain r) = dmn) \<longrightarrow>
            r \<in> set res))"
  proof (intro allI impI)
    fix res assume "search_documents to_lower q dmn limit db = Inr res"
    then have lim: "0 \<le> limit" and res: "res = take (nat limit) ?ms"
      by (auto simp: search_documents_filter split: if_splits)
    have len: "int (length res) \<le> limit"
      using lim res by simp
    have rows: "\<forall>r \<in> set res. r \<in> set (documents db) \<and> icontains to_lower (content r) q \<and>
         (domain_given dmn \<longrightarrow> Some (domain r) = dmn)"
    proof
      fix r assume "r \<in> set res"
      then have "r \<in> set ?ms" using res by (auto dest: in_set_takeD)
      then show "r \<in> set (documents db) \<and> icontains to_lower (content r) q \<and>
         (domain_given dmn \<longrightarrow> Some (domain r) = dmn)"
        by simp
    qed
    have all: "int (length res) < limit \<longrightarrow>
         (\<forall>r \<in> set (documents db).
            icontains to_lower (content r) q \<and> (domain_given dmn \<longrightarrow> Some (domain r) = dmn) \<longrightarrow>
            r \<in> set res)"
    proof
      assume "int (length res) < limit"
      then have "length ?ms \<le> nat limit" using res by (simp add: min_def split: if_splits)
      then have "res = ?ms" using res by simp
      then show "\<forall>r \<in> set (documents db).
            icontains to_lower (content r) q \<and> (domain_given dmn \<longrightarrow> Some (domain r) = dmn) \<longrightarrow>
            r \<in> set res"
        by simp
    qed
    from len rows all show "int (length res) \<le> limit \<and>
      (\<forall>r \<in> set res. r \<in> set (documents db) \<and> icontains to_lower (content r) q \<and>
         (domain_given dmn \<longrightarrow> Some (domain r) = dmn)) \<and>
      (int (length res) < limit \<longrightarrow>
         (\<forall>r \<in> set (documents db).
            icontains to_lower (content r) q \<and> (domain_given dmn \<longrightarrow> Some (domain r) = dmn) \<longrightarrow>
            r \<in> set res))"
      by blast
  qed
  have empty: "0 \<le> limit \<and> d \<noteq> [] \<and>
      (\<forall>r \<in> set (documents db). icontains to_lower (content r) q \<longrightarrow> domain r \<noteq> d) \<longrightarrow>
      search_documents to_lower q (Some d) limit db = Inr []"
    by (auto simp: search_documents_filter domain_given_def filter_empty_conv)
  from returns sound empty show ?thesis by blast
qed

subsection \<open>The generation invariant under the three kinds of change\<close>

lemma generation_invariant_no_active:
  "\<forall>r \<in> set rows. \<not> generation_active r \<Longrightarrow> generation_invariant rows"
  by (simp add: generation_invariant_def)

lemma generation_invariant_filter:
  "generation_invariant rows \<Longrightarrow> generation_invariant (filter P rows)"
  by (simp add: generation_invariant_def)

lemma generation_invariant_nth:
  "generation_invariant rows \<longleftrightarrow>
     (\<forall>i < length rows. \<forall>j < length rows.
        map generation_active rows ! i \<and> map domain rows ! j = map domain rows ! i \<longrightarrow>
        map generation_active rows ! j =
          (map generation_id rows ! j = map generation_id rows ! i))"
  by (simp add: generation_invariant_def all_set_conv_all_nth)

lemma generation_invariant_cong:
  assumes "map domain rows' = map domain rows"
    and "map generation_id rows' = map generation_id rows"
    and "map generation_active rows' = map generation_active rows"
  shows "generation_invariant rows' = generation_invariant rows"
proof -
  have "length rows' = length rows"
    using assms(1) by (rule map_eq_imp_length_eq)
  then show ?thesis
    by (simp only: generation_invariant_nth assms)
qed

lemma generation_invariant_update:
  assumes "generation_invariant (documents db)"
  shows "generation_invariant (documents (update_document e x c h dep db))"
  using assms generation_invariant_cong [of "documents (update_document e x c h dep db)" "documents db"]
  by (simp only: update_document_maps)

lemma generation_invariant_save_existing:
  assumes "generation_invariant (documents db)"
    and "fst (save_document e d u p c h dep db) \<noteq> Inr INSERTED"
  shows "generation_invariant (documents (snd (save_document e d u p c h dep db)))"
proof (cases e d u p c h dep db rule: save_document_cases)
  case unchanged
  with assms(1) show ?thesis by simp
next
  case (updated x)
  with assms(1) show ?thesis by (simp add: generation_invariant_update)
next
  case inserted
  with assms(2) show ?thesis by simp
qed

lemma one_active_generation_nth:
  "one_active_generation rows \<longleftrightarrow>
     (\<forall>i < length rows. \<forall>j < length rows.
        map generation_active rows ! i \<and> map generation_active rows ! j \<and>
        map domain rows ! j = map domain rows ! i \<longrightarrow>
        map generation_id rows ! j = map generation_id rows ! i)"
  by (simp add: one_active_generation_def all_set_conv_all_nth)

lemma one_active_generation_cong:
  assumes "map domain rows' = map domain rows"
    and "map generation_id rows' = map generation_id rows"
    and "map generation_active rows' = map generation_active rows"
  shows "one_active_generation rows' = one_active_generation rows"
proof -
  have "length rows' = length rows"
    using assms(1) by (rule map_eq_imp_length_eq)
  then show ?thesis
    by (simp only: one_active_generation_nth assms)
qed

lemma one_active_generation_append:
  assumes "one_active_generation rows" and "\<not> generation_active new"
  shows "one_active_generation (rows @ [new])"
  unfolding one_active_generation_def
proof (intro ballI impI)
  fix r1 r2
  assume m: "r1 \<in> set (rows @ [new])" "r2 \<in> set (rows @ [new])"
    and a: "generation_active r1 \<and> generation_active r2 \<and> domain r2 = domain r1"
  have "r1 \<in> set rows" "r2 \<in> set rows"
    using m a assms(2) by auto
  then show "generation_id r2 = generation_id r1"
    using assms(1) a unfolding one_active_generation_def by blast
qed

lemma one_active_generation_save:
  assumes "one_active_generation (documents db)"
  shows "one_active_generation (documents (snd (save_document e d u p c h dep db)))"
proof (cases e d u p c h dep db rule: save_document_cases)
  case unchanged
  with assms show ?thesis by simp
next
  case (updated x)
  have "one_active_generation (documents (update_document e x c h dep db)) =
      one_active_generation (documents db)"
    by (rule one_active_generation_cong) (simp_all only: update_document_maps)
  with assms updated show ?thesis by simp
next
  case inserted
  have "\<not> generation_active (new_document e (uuid_counter db) d u p c h dep)"
    by (simp add: new_document_def)
  with assms have "one_active_generation
      (documents db @ [new_document e (uuid_counter db) d u p c h dep])"
    by (rule one_active_generation_append)
  with inserted(3) show ?thesis by simp
qed

lemma reachable_no_active:
  "store_reachable db \<Longrightarrow> \<forall>r \<in> set (documents db). \<not> generation_active r"
proof (induction rule: store_reachable.induct)
  case reach_empty
  show ?case by (simp add: empty_database_def)
next
  case (reach_save db e d u p c h dep)
  let ?rows = "documents (snd (save_document e d u p c h dep db))"
  have "True \<notin> set (map generation_active (documents db))"
    using reach_save.IH by auto
  then have "True \<notin> set (map generation_active (documents db) @
      (if fst (save_document e d u p c h dep db) = Inr INSERTED then [False] else []))"
    by simp
  then have "True \<notin> set (map generation_active ?rows)"
    by (simp add: generation_active_after_save)
  then show ?case by force
next
  case (reach_delete db d)
  then show ?case by (simp add: delete_documents_by_domain_def)
qed

subsection \<open>The sample table\<close>

lemma table_constraints_sample: "table_constraints sample_database"
  by (simp add: table_constraints_def sample_database_def react_hooks_def react_components_def
      vue_guide_def)

lemma sample_rows:
  "documents sample_database = [react_hooks, react_components, vue_guide]"
  by (simp add: sample_database_def)

lemma sample_urls [simp]:
  "url react_hooks = ''https://react.dev/hooks''"
  "url react_components = ''https://react.dev/components''"
  "url vue_guide = ''https://vue.io/guide''"
  by (simp_all add: react_hooks_def react_components_def vue_guide_def)

lemma sample_domains [simp]:
  "domain react_hooks = ''react.dev''"
  "domain react_components = ''react.dev''"
  "domain vue_guide = ''vue.io''"
  by (simp_all add: react_hooks_def react_components_def vue_guide_def)

lemma sample_hashes [simp]:
  "content_hash react_hooks = ''h1''"
  "content_hash react_components = ''h2''"
  "content_hash vue_guide = ''h3''"
  by (simp_all add: react_hooks_def react_components_def vue_guide_def)

lemma sample_kept_fields [simp]:
  "updated_at react_hooks = 1" "generation_id react_hooks = 7"
  "generation_active react_hooks = False" "content_refreshed_at react_hooks = 1"
  by (simp_all add: react_hooks_def)

lemma env_at_fields [simp]:
  "now (env_at t) = t" "generation_default (env_at t) = 9" "updated_at_onupdate (env_at t) = True"
  by (simp_all add: env_at_def)

lemma upgrade_legacy_rows:
  "documents (upgrade legacy_database) =
     [react_hooks\<lparr>generation_id := 3, generation_active := True\<rparr>,
      vue_guide\<lparr>generation_id := 4, generation_active := True\<rparr>]"
  by (simp add: upgrade_def legacy_database_def)

lemma upgrade_sample_rows:
  "documents (upgrade sample_database) =
     [react_hooks\<lparr>generation_id := 3, generation_active := True\<rparr>,
      react_components\<lparr>generation_id := 4, generation_active := True\<rparr>,
      vue_guide\<lparr>generation_id := 5, generation_active := True\<rparr>]"
  by (simp add: upgrade_def sample_database_def)

section \<open>Reading a document by its url\<close>

text \<open>
  Claim C8. \<^verbatim>\<open>get_document_by_url\<close> returns \<^verbatim>\<open>None\<close>, as a value and not as an
  exception, when no row has the url, and returns the stored document when a row has it
  (in a table that satisfies the constraints of the schema, so that the row is the only
  one with the url).
\<close>

theorem get_document_by_url_found_or_none:
  "((\<forall>r \<in> set (documents db). url r \<noteq> u) \<longrightarrow> get_document_by_url u db = Inr None) \<and>
   (table_constraints db \<and> r \<in> set (documents db) \<and> url r = u \<longrightarrow>
      get_document_by_url u db = Inr (Some r))"
  by (auto simp: get_document_by_url_def select_by_url_none select_by_url_one
      table_constraints_def)

theorem get_document_by_url_witness:
  "get_document_by_url ''https://nonexistent.com/doc'' sample_database = Inr None \<and>
   get_document_by_url ''https://vue.io/guide'' sample_database = Inr (Some vue_guide)"
proof -
  have none: "\<forall>r \<in> set (documents sample_database). url r \<noteq> ''https://nonexistent.com/doc''"
    by (simp add: sample_rows)
  have some: "table_constraints sample_database \<and> vue_guide \<in> set (documents sample_database) \<and>
      url vue_guide = ''https://vue.io/guide''"
    by (simp add: table_constraints_sample sample_rows)
  from none
    get_document_by_url_found_or_none
      [of sample_database "''https://nonexistent.com/doc''" vue_guide]
  have 1: "get_document_by_url ''https://nonexistent.com/doc'' sample_database = Inr None"
    by blast
  from some get_document_by_url_found_or_none [of sample_database "''https://vue.io/guide''" vue_guide]
  have 2: "get_document_by_url ''https://vue.io/guide'' sample_database = Inr (Some vue_guide)"
    by blast
  from 1 2 show ?thesis by blast
qed

section \<open>Deleting a domain\<close>

text \<open>
  Claim C5. \<^verbatim>\<open>delete_documents_by_domain d\<close> leaves no row of domain \<open>d\<close>, whatever
  the generation fields of the rows are; the rows of every other domain are the same rows
  in the same order; the number returned is the number of rows of \<open>d\<close>, which is the
  number of rows by which the table shrinks; and it is zero, with the database unchanged,
  when \<open>d\<close> has no rows.
\<close>

theorem delete_documents_by_domain_effect:
  "(\<forall>r \<in> set (documents (snd (delete_documents_by_domain d db))). domain r \<noteq> d) \<and>
   (\<forall>d'. d' \<noteq> d \<longrightarrow>
      filter (\<lambda>r. domain r = d') (documents (snd (delete_documents_by_domain d db))) =
      filter (\<lambda>r. domain r = d') (documents db)) \<and>
   fst (delete_documents_by_domain d db) + length (documents (snd (delete_documents_by_domain d db)))
     = length (documents db) \<and>
   fst (delete_documents_by_domain d db) = length (filter (\<lambda>r. domain r = d) (documents db)) \<and>
   ((\<forall>r \<in> set (documents db). domain r \<noteq> d) \<longrightarrow> delete_documents_by_domain d db = (0, db))"
proof -
  have gone: "\<forall>r \<in> set (documents (snd (delete_documents_by_domain d db))). domain r \<noteq> d"
    by (simp add: delete_documents_by_domain_def)
  have others: "\<forall>d'. d' \<noteq> d \<longrightarrow>
      filter (\<lambda>r. domain r = d') (documents (snd (delete_documents_by_domain d db))) =
      filter (\<lambda>r. domain r = d') (documents db)"
    by (auto simp: delete_documents_by_domain_def intro: filter_cong)
  have count: "fst (delete_documents_by_domain d db)
      + length (documents (snd (delete_documents_by_domain d db))) = length (documents db)"
    using sum_length_filter_compl [of "\<lambda>r. domain r = d" "documents db"]
    by (simp add: delete_documents_by_domain_def)
  have exact: "fst (delete_documents_by_domain d db) =
      length (filter (\<lambda>r. domain r = d) (documents db))"
    by (simp add: delete_documents_by_domain_def)
  have zero: "(\<forall>r \<in> set (documents db). domain r \<noteq> d) \<longrightarrow>
      delete_documents_by_domain d db = (0, db)"
    by (simp add: delete_documents_by_domain_def filter_empty_conv filter_id_conv)
  from gone others count exact zero show ?thesis by blast
qed

theorem delete_documents_by_domain_witness:
  "delete_documents_by_domain ''react.dev'' sample_database =
     (2, \<lparr>documents = [vue_guide], uuid_counter = 3\<rparr>) \<and>
   delete_documents_by_domain ''nonexistent.com'' sample_database = (0, sample_database)"
proof -
  have none: "\<forall>r \<in> set (documents sample_database). domain r \<noteq> ''nonexistent.com''"
    by (simp add: sample_rows)
  with delete_documents_by_domain_effect [of "''nonexistent.com''" sample_database]
  have 1: "delete_documents_by_domain ''nonexistent.com'' sample_database = (0, sample_database)"
    by blast
  have 2: "delete_documents_by_domain ''react.dev'' sample_database =
     (2, \<lparr>documents = [vue_guide], uuid_counter = 3\<rparr>)"
    by (simp add: delete_documents_by_domain_def sample_database_def)
  from 1 2 show ?thesis by blast
qed

section \<open>The three outcomes of save_document\<close>

text \<open>
  Claim C1. In a table that satisfies the constraints of the schema, a call of
  \<^verbatim>\<open>save_document\<close> for a url that no row has appends a row with the url, the content and
  the hash and returns \<^verbatim>\<open>INSERTED\<close>; for a url whose row has another hash it returns
  \<^verbatim>\<open>UPDATED\<close>, the table keeps its length and the row of the url, with the same primary
  key, has the new content and hash; for a url whose row has the same hash it returns the
  third member of \<^verbatim>\<open>SaveResult\<close> and leaves the database as it is. That member, the
  outcome for unchanged content, is spelled \<^verbatim>\<open>SKIPPED\<close> in \<^verbatim>\<open>storage.py\<close> and its
  tests. Saving the same url with the same hash twice, starting without a row for the url,
  gives \<^verbatim>\<open>INSERTED\<close> and then \<^verbatim>\<open>SKIPPED\<close>, not \<^verbatim>\<open>UPDATED\<close>, whatever the clock,
  domain, path and depth of the second call are.
\<close>

theorem save_document_outcome:
  assumes "table_constraints db"
  shows
    "((\<forall>r \<in> set (documents db). url r \<noteq> u) \<longrightarrow>
        fst (save_document e d u p c h dep db) = Inr INSERTED \<and>
        (\<exists>row. documents (snd (save_document e d u p c h dep db)) = documents db @ [row] \<and>
           url row = u \<and> content row = c \<and> content_hash row = h)) \<and>
     (\<forall>r \<in> set (documents db). url r = u \<and> content_hash r \<noteq> h \<longrightarrow>
        fst (save_document e d u p c h dep db) = Inr UPDATED \<and>
        length (documents (snd (save_document e d u p c h dep db))) = length (documents db) \<and>
        (\<exists>row. get_document_by_url u (snd (save_document e d u p c h dep db)) = Inr (Some row) \<and>
           doc_id row = doc_id r \<and> content row = c \<and> content_hash row = h)) \<and>
     (\<forall>r \<in> set (documents db). url r = u \<and> content_hash r = h \<longrightarrow>
        save_document e d u p c h dep db = (Inr SKIPPED, db)) \<and>
     ((\<forall>r \<in> set (documents db). url r \<noteq> u) \<longrightarrow>
        fst (save_document e' d' u p' c h dep'
               (snd (save_document e d u p c h dep db))) = Inr SKIPPED \<and>
        fst (save_document e' d' u p' c h dep'
               (snd (save_document e d u p c h dep db))) \<noteq> Inr UPDATED)"
proof -
  let ?new = "new_document e (uuid_counter db) d u p c h dep"
  have du: "distinct (map url (documents db))"
    using assms by (simp add: table_constraints_def)
  have new: "url ?new = u" "content ?new = c" "content_hash ?new = h"
    by (simp_all add: new_document_def)
  have ins: "(\<forall>r \<in> set (documents db). url r \<noteq> u) \<longrightarrow>
        fst (save_document e d u p c h dep db) = Inr INSERTED \<and>
        (\<exists>row. documents (snd (save_document e d u p c h dep db)) = documents db @ [row] \<and>
           url row = u \<and> content row = c \<and> content_hash row = h)"
    using new by (auto simp: save_document_insert)
  have upd: "\<forall>r \<in> set (documents db). url r = u \<and> content_hash r \<noteq> h \<longrightarrow>
        fst (save_document e d u p c h dep db) = Inr UPDATED \<and>
        length (documents (snd (save_document e d u p c h dep db))) = length (documents db) \<and>
        (\<exists>row. get_document_by_url u (snd (save_document e d u p c h dep db)) = Inr (Some row) \<and>
           doc_id row = doc_id r \<and> content row = c \<and> content_hash row = h)"
  proof (intro ballI impI)
    fix r assume r: "r \<in> set (documents db)" "url r = u \<and> content_hash r \<noteq> h"
    then have s: "save_document e d u p c h dep db = (Inr UPDATED, update_document e r c h dep db)"
      using du by (simp add: save_document_update)
    have "length (documents (update_document e r c h dep db)) = length (documents db)"
      by (simp add: update_document_def)
    moreover have "get_document_by_url u (update_document e r c h dep db) =
        Inr (Some (assign_content e c h dep r))"
      using assms r by (simp add: stored_after_update)
    ultimately show "fst (save_document e d u p c h dep db) = Inr UPDATED \<and>
        length (documents (snd (save_document e d u p c h dep db))) = length (documents db) \<and>
        (\<exists>row. get_document_by_url u (snd (save_document e d u p c h dep db)) = Inr (Some row) \<and>
           doc_id row = doc_id r \<and> content row = c \<and> content_hash row = h)"
      using s by simp
  qed
  have skip: "\<forall>r \<in> set (documents db). url r = u \<and> content_hash r = h \<longrightarrow>
        save_document e d u p c h dep db = (Inr SKIPPED, db)"
    using du by (auto simp: save_document_skip)
  have twice: "(\<forall>r \<in> set (documents db). url r \<noteq> u) \<longrightarrow>
        fst (save_document e' d' u p' c h dep'
               (snd (save_document e d u p c h dep db))) = Inr SKIPPED \<and>
        fst (save_document e' d' u p' c h dep'
               (snd (save_document e d u p c h dep db))) \<noteq> Inr UPDATED"
  proof
    assume none: "\<forall>r \<in> set (documents db). url r \<noteq> u"
    let ?db1 = "snd (save_document e d u p c h dep db)"
    have db1: "documents ?db1 = documents db @ [?new]"
      using none by (simp add: save_document_insert)
    have "table_constraints ?db1" using assms by (rule table_constraints_save)
    then have "distinct (map url (documents ?db1))" by (simp add: table_constraints_def)
    moreover have "?new \<in> set (documents ?db1)" using db1 by simp
    ultimately have "save_document e' d' u p' c h dep' ?db1 = (Inr SKIPPED, ?db1)"
      using new by (simp add: save_document_skip)
    then show "fst (save_document e' d' u p' c h dep' ?db1) = Inr SKIPPED \<and>
        fst (save_document e' d' u p' c h dep' ?db1) \<noteq> Inr UPDATED"
      by simp
  qed
  from ins upd skip twice show ?thesis by blast
qed

theorem save_document_outcome_witness:
  "fst (save_document (env_at 5) ''vue.io'' ''https://vue.io/api'' ''/api'' ''# API'' ''h4'' 1
          sample_database) = Inr INSERTED \<and>
   fst (save_document (env_at 5) ''react.dev'' ''https://react.dev/hooks'' ''/hooks''
          ''# React Hooks, second edition'' ''h9'' 0 sample_database) = Inr UPDATED \<and>
   save_document (env_at 5) ''react.dev'' ''https://react.dev/hooks'' ''/hooks''
     ''# React Hooks'' ''h1'' 0 sample_database = (Inr SKIPPED, sample_database) \<and>
   fst (save_document (env_at 6) ''vue.io'' ''https://vue.io/api'' ''/api'' ''# API'' ''h4'' 1
          (snd (save_document (env_at 5) ''vue.io'' ''https://vue.io/api'' ''/api'' ''# API''
                  ''h4'' 1 sample_database))) = Inr SKIPPED"
proof -
  note tc = table_constraints_sample
  have absent: "\<forall>r \<in> set (documents sample_database). url r \<noteq> ''https://vue.io/api''"
    by (simp add: sample_rows)
  have here: "react_hooks \<in> set (documents sample_database)"
    by (simp add: sample_rows)
  from absent
    save_document_outcome [OF tc, where u = "''https://vue.io/api''" and e = "env_at 5"
      and d = "''vue.io''" and p = "''/api''" and c = "''# API''" and h = "''h4''" and dep = 1
      and e' = "env_at 6" and d' = "''vue.io''" and p' = "''/api''" and dep' = 1]
  have 1: "fst (save_document (env_at 5) ''vue.io'' ''https://vue.io/api'' ''/api'' ''# API''
        ''h4'' 1 sample_database) = Inr INSERTED"
    and 4: "fst (save_document (env_at 6) ''vue.io'' ''https://vue.io/api'' ''/api'' ''# API''
        ''h4'' 1 (snd (save_document (env_at 5) ''vue.io'' ''https://vue.io/api'' ''/api''
        ''# API'' ''h4'' 1 sample_database))) = Inr SKIPPED"
    by blast+
  from here
    save_document_outcome [OF tc, where u = "''https://react.dev/hooks''" and h = "''h9''"
      and e = "env_at 5" and d = "''react.dev''" and p = "''/hooks''"
      and c = "''# React Hooks, second edition''" and dep = 0]
  have 2: "fst (save_document (env_at 5) ''react.dev'' ''https://react.dev/hooks'' ''/hooks''
        ''# React Hooks, second edition'' ''h9'' 0 sample_database) = Inr UPDATED"
    by (simp add: sample_rows)
  from here
    save_document_outcome [OF tc, where u = "''https://react.dev/hooks''" and h = "''h1''"
      and e = "env_at 5" and d = "''react.dev''" and p = "''/hooks''"
      and c = "''# React Hooks''" and dep = 0]
  have 3: "save_document (env_at 5) ''react.dev'' ''https://react.dev/hooks'' ''/hooks''
        ''# React Hooks'' ''h1'' 0 sample_database = (Inr SKIPPED, sample_database)"
    by (simp add: sample_rows)
  from 1 2 3 4 show ?thesis by blast
qed

section \<open>What save_document writes to an existing row\<close>

text \<open>
  Claim C2, as amended. Let a row have the url, in a table that satisfies the constraints
  of the schema. When the hash of the call differs from the stored one, the row of the url
  afterwards has the content, the hash and the depth of the call and
  \<^verbatim>\<open>content_refreshed_at\<close> is the time of the call; its \<^verbatim>\<open>generation_id\<close>,
  \<^verbatim>\<open>generation_active\<close>, primary key, domain, url, path and \<^verbatim>\<open>inserted_at\<close> are as
  before, and every other row is still in the table. When the hash is the same, the
  database after the call is the database before it: neither \<^verbatim>\<open>content_refreshed_at\<close>
  nor \<^verbatim>\<open>generation_id\<close> nor \<^verbatim>\<open>updated_at\<close> is written.
\<close>

theorem save_document_existing_row:
  assumes "table_constraints db" and "r \<in> set (documents db)" and "url r = u"
  shows
    "(content_hash r \<noteq> h \<longrightarrow>
        (\<exists>row. get_document_by_url u (snd (save_document e d u p c h dep db)) = Inr (Some row) \<and>
           content row = c \<and> content_hash row = h \<and> depth row = dep \<and>
           content_refreshed_at row = now e \<and>
           generation_id row = generation_id r \<and> generation_active row = generation_active r \<and>
           doc_id row = doc_id r \<and> domain row = domain r \<and> url row = url r \<and>
           path row = path r \<and> inserted_at row = inserted_at r) \<and>
        (\<forall>x \<in> set (documents db). x \<noteq> r \<longrightarrow>
           x \<in> set (documents (snd (save_document e d u p c h dep db))))) \<and>
     (content_hash r = h \<longrightarrow> snd (save_document e d u p c h dep db) = db)"
proof -
  have du: "distinct (map url (documents db))"
    using assms(1) by (simp add: table_constraints_def)
  have changed: "content_hash r \<noteq> h \<longrightarrow>
        (\<exists>row. get_document_by_url u (snd (save_document e d u p c h dep db)) = Inr (Some row) \<and>
           content row = c \<and> content_hash row = h \<and> depth row = dep \<and>
           content_refreshed_at row = now e \<and>
           generation_id row = generation_id r \<and> generation_active row = generation_active r \<and>
           doc_id row = doc_id r \<and> domain row = domain r \<and> url row = url r \<and>
           path row = path r \<and> inserted_at row = inserted_at r) \<and>
        (\<forall>x \<in> set (documents db). x \<noteq> r \<longrightarrow>
           x \<in> set (documents (snd (save_document e d u p c h dep db))))"
  proof
    assume "content_hash r \<noteq> h"
    then have s: "snd (save_document e d u p c h dep db) = update_document e r c h dep db"
      using du assms(2,3) by (simp add: save_document_update)
    have "get_document_by_url u (update_document e r c h dep db) =
        Inr (Some (assign_content e c h dep r))"
      using assms by (rule stored_after_update)
    then have "\<exists>row. get_document_by_url u (update_document e r c h dep db) = Inr (Some row) \<and>
           content row = c \<and> content_hash row = h \<and> depth row = dep \<and>
           content_refreshed_at row = now e \<and>
           generation_id row = generation_id r \<and> generation_active row = generation_active r \<and>
           doc_id row = doc_id r \<and> domain row = domain r \<and> url row = url r \<and>
           path row = path r \<and> inserted_at row = inserted_at r"
      by simp
    moreover have "\<forall>x \<in> set (documents db). x \<noteq> r \<longrightarrow>
        x \<in> set (documents (update_document e r c h dep db))"
      using assms(1,2) by (blast intro: other_rows_after_update)
    ultimately show "(\<exists>row. get_document_by_url u (snd (save_document e d u p c h dep db)) = Inr (Some row) \<and>
           content row = c \<and> content_hash row = h \<and> depth row = dep \<and>
           content_refreshed_at row = now e \<and>
           generation_id row = generation_id r \<and> generation_active row = generation_active r \<and>
           doc_id row = doc_id r \<and> domain row = domain r \<and> url row = url r \<and>
           path row = path r \<and> inserted_at row = inserted_at r) \<and>
        (\<forall>x \<in> set (documents db). x \<noteq> r \<longrightarrow>
           x \<in> set (documents (snd (save_document e d u p c h dep db))))"
      using s by simp
  qed
  have same: "content_hash r = h \<longrightarrow> snd (save_document e d u p c h dep db) = db"
    using du assms(2,3) by (simp add: save_document_skip)
  from changed same show ?thesis by blast
qed

theorem save_document_existing_row_witness:
  "snd (save_document (env_at 5) ''react.dev'' ''https://react.dev/hooks'' ''/hooks''
          ''# React Hooks'' ''h1'' 0 sample_database) = sample_database \<and>
   vue_guide \<in> set (documents (snd (save_document (env_at 5) ''react.dev''
          ''https://react.dev/hooks'' ''/hooks'' ''# React Hooks, second edition'' ''h9'' 0
          sample_database)))"
proof -
  have here: "react_hooks \<in> set (documents sample_database)"
    and there: "vue_guide \<in> set (documents sample_database)"
    by (simp_all add: sample_rows)
  have differ: "vue_guide \<noteq> react_hooks"
    by (simp add: vue_guide_def react_hooks_def)
  from save_document_existing_row [OF table_constraints_sample here sample_urls(1),
      where h = "''h1''" and e = "env_at 5" and d = "''react.dev''" and p = "''/hooks''"
      and c = "''# React Hooks''" and dep = 0]
  have 1: "snd (save_document (env_at 5) ''react.dev'' ''https://react.dev/hooks'' ''/hooks''
          ''# React Hooks'' ''h1'' 0 sample_database) = sample_database"
    by simp
  from there differ
    save_document_existing_row [OF table_constraints_sample here sample_urls(1),
      where h = "''h9''" and e = "env_at 5" and d = "''react.dev''" and p = "''/hooks''"
      and c = "''# React Hooks, second edition''" and dep = 0]
  have 2: "vue_guide \<in> set (documents (snd (save_document (env_at 5) ''react.dev''
          ''https://react.dev/hooks'' ''/hooks'' ''# React Hooks, second edition'' ''h9'' 0
          sample_database)))"
    by simp
  from 1 2 show ?thesis by blast
qed

text \<open>
  Claim C2 as stated fails: \<^verbatim>\<open>save_document\<close> has no generation argument and assigns
  \<^verbatim>\<open>generation_id\<close> in no branch, and with an identical hash it returns before any
  write. In the sample table the row of \<^verbatim>\<open>https://react.dev/hooks\<close> was last written at
  time 1 under generation 7. After a call at time 5 with the same hash the stored row is
  that very row, \<^verbatim>\<open>updated_at\<close> still 1; and after a call with another hash the
  generations of the three rows are still 7, 7 and 8.
\<close>

theorem save_document_same_hash_writes_nothing:
  "get_document_by_url ''https://react.dev/hooks''
     (snd (save_document (env_at 5) ''react.dev'' ''https://react.dev/hooks'' ''/hooks''
             ''# React Hooks'' ''h1'' 0 sample_database)) = Inr (Some react_hooks) \<and>
   updated_at react_hooks = 1 \<and> now (env_at 5) = 5 \<and>
   generation_id react_hooks = 7 \<and> generation_default (env_at 5) = 9 \<and>
   map generation_id
     (documents (snd (save_document (env_at 5) ''react.dev'' ''https://react.dev/hooks''
             ''/hooks'' ''# React Hooks, second edition'' ''h9'' 0 sample_database))) = [7, 7, 8]"
proof -
  have tc: "distinct (map url (documents sample_database))"
    using table_constraints_sample by (simp add: table_constraints_def)
  have here: "react_hooks \<in> set (documents sample_database)"
    by (simp add: sample_rows)
  have "save_document (env_at 5) ''react.dev'' ''https://react.dev/hooks'' ''/hooks''
             ''# React Hooks'' ''h1'' 0 sample_database = (Inr SKIPPED, sample_database)"
    using tc here by (simp add: save_document_skip)
  moreover have "get_document_by_url ''https://react.dev/hooks'' sample_database =
      Inr (Some react_hooks)"
    using tc here by (simp add: get_document_by_url_def select_by_url_one)
  moreover have "snd (save_document (env_at 5) ''react.dev'' ''https://react.dev/hooks''
             ''/hooks'' ''# React Hooks, second edition'' ''h9'' 0 sample_database) =
      update_document (env_at 5) react_hooks ''# React Hooks, second edition'' ''h9'' 0
        sample_database"
    using tc here by (simp add: save_document_update)
  moreover have "map generation_id (documents sample_database) = [7, 7, 8]"
    by (simp add: sample_database_def react_hooks_def react_components_def vue_guide_def)
  ultimately show ?thesis by simp
qed

section \<open>save_document and generation_active\<close>

text \<open>
  Claim C6. A call of \<^verbatim>\<open>save_document\<close> leaves \<^verbatim>\<open>generation_active\<close> of every row of
  the table as it was, and the row that a call returning \<^verbatim>\<open>INSERTED\<close> appends has
  \<^verbatim>\<open>generation_active = false\<close>: the column of flags after the call is the column before
  it, followed by \<^verbatim>\<open>false\<close> when a row was inserted.
\<close>

theorem save_document_generation_active:
  "map generation_active (documents (snd (save_document e d u p c h dep db))) =
     map generation_active (documents db) @
       (if fst (save_document e d u p c h dep db) = Inr INSERTED then [False] else [])"
  by (rule generation_active_after_save)

theorem save_document_generation_active_witness:
  "map generation_active
     (documents (snd (save_document (env_at 5) ''vue.io'' ''https://vue.io/api'' ''/api''
        ''# API'' ''h4'' 1 (upgrade sample_database)))) = [True, True, True, False]"
proof -
  have rows: "documents (upgrade sample_database) =
      [react_hooks\<lparr>generation_id := 3, generation_active := True\<rparr>,
       react_components\<lparr>generation_id := 4, generation_active := True\<rparr>,
       vue_guide\<lparr>generation_id := 5, generation_active := True\<rparr>]"
    by (simp add: upgrade_def sample_database_def)
  then have "\<forall>r \<in> set (documents (upgrade sample_database)). url r \<noteq> ''https://vue.io/api''"
    by simp
  then have "fst (save_document (env_at 5) ''vue.io'' ''https://vue.io/api'' ''/api''
        ''# API'' ''h4'' 1 (upgrade sample_database)) = Inr INSERTED"
    by (simp add: save_document_insert)
  with rows
    save_document_generation_active [of "env_at 5" "''vue.io''" "''https://vue.io/api''" "''/api''"
      "''# API''" "''h4''" 1 "upgrade sample_database"]
  show ?thesis by simp
qed

section \<open>One row per url\<close>

text \<open>
  Claim C7, as amended. \<^verbatim>\<open>save_document\<close> keeps the constraints of the schema, among
  them that no two rows have the same url, and after any sequence of calls from the empty
  table no two rows have the same url. A call for a url that a row has does not insert:
  the table after the call is the table before it with one row put in the place of the row
  of the url; that row has the same primary key and the same url; when the hash of the
  call differs from the stored one it has the content and the hash of the call, and when
  the hash is the same it is the stored row itself, with nothing written. Exactly one row
  has the url afterwards.
\<close>

theorem save_document_url_unique:
  "(table_constraints db \<longrightarrow>
      table_constraints (snd (save_document e d u p c h dep db)) \<and>
      distinct (map url (documents (snd (save_document e d u p c h dep db))))) \<and>
   (table_constraints db \<and> r \<in> set (documents db) \<and> url r = u \<longrightarrow>
      fst (save_document e d u p c h dep db) \<noteq> Inr INSERTED \<and>
      (\<exists>i row. i < length (documents db) \<and> documents db ! i = r \<and>
         documents (snd (save_document e d u p c h dep db)) = (documents db)[i := row] \<and>
         doc_id row = doc_id r \<and> url row = u \<and>
         (content_hash r \<noteq> h \<longrightarrow> content row = c \<and> content_hash row = h) \<and>
         (content_hash r = h \<longrightarrow> row = r)) \<and>
      length (filter (\<lambda>x. url x = u) (documents (snd (save_document e d u p c h dep db)))) = 1) \<and>
   distinct (map url (documents (save_documents calls empty_database)))"
proof -
  have keep: "table_constraints db \<longrightarrow>
      table_constraints (snd (save_document e d u p c h dep db)) \<and>
      distinct (map url (documents (snd (save_document e d u p c h dep db))))"
    using table_constraints_save [of db e d u p c h dep]
    by (simp add: table_constraints_def)
  have inplace: "table_constraints db \<and> r \<in> set (documents db) \<and> url r = u \<longrightarrow>
      fst (save_document e d u p c h dep db) \<noteq> Inr INSERTED \<and>
      (\<exists>i row. i < length (documents db) \<and> documents db ! i = r \<and>
         documents (snd (save_document e d u p c h dep db)) = (documents db)[i := row] \<and>
         doc_id row = doc_id r \<and> url row = u \<and>
         (content_hash r \<noteq> h \<longrightarrow> content row = c \<and> content_hash row = h) \<and>
         (content_hash r = h \<longrightarrow> row = r)) \<and>
      length (filter (\<lambda>x. url x = u) (documents (snd (save_document e d u p c h dep db)))) = 1"
  proof
    assume a: "table_constraints db \<and> r \<in> set (documents db) \<and> url r = u"
    let ?res = "save_document e d u p c h dep db"
    let ?rows = "documents (snd ?res)"
    have du: "distinct (map url (documents db))" and dk: "distinct (map doc_id (documents db))"
      using a by (simp_all add: table_constraints_def)
    have rin: "r \<in> set (documents db)" and ur: "url r = u"
      using a by simp_all
    obtain i where i: "i < length (documents db)" "documents db ! i = r"
      using rin by (auto simp: in_set_conv_nth)
    have place: "fst ?res \<noteq> Inr INSERTED \<and>
        (\<exists>row. ?rows = (documents db)[i := row] \<and> doc_id row = doc_id r \<and> url row = u \<and>
           (content_hash r \<noteq> h \<longrightarrow> content row = c \<and> content_hash row = h) \<and>
           (content_hash r = h \<longrightarrow> row = r))"
    proof (cases "content_hash r = h")
      case True
      have "?res = (Inr SKIPPED, db)"
        using du rin ur True by (rule save_document_skip)
      moreover have "documents db = (documents db)[i := r]"
      proof -
        have "(documents db)[i := documents db ! i] = documents db"
          by (rule list_update_id)
        then have "(documents db)[i := r] = documents db"
          by (simp only: i(2))
        then show ?thesis by (rule sym)
      qed
      ultimately show ?thesis using True ur by auto
    next
      case False
      have "?res = (Inr UPDATED, update_document e r c h dep db)"
        using du rin ur False by (rule save_document_update)
      moreover have "documents (update_document e r c h dep db) =
          (documents db)[i := assign_content e c h dep r]"
        using update_document_in_place [OF dk i(1), of e c h dep] i(2) by simp
      ultimately show ?thesis using False ur by auto
    qed
    have urls: "map url ?rows = map url (documents db)"
      using a existing_row_not_inserted(1) [of r db u e d p c h dep] by blast
    have "length (filter (\<lambda>x. x = u) (map url ?rows)) = 1"
    proof -
      have "u \<in> set (map url (documents db))"
        using a by auto
      with du have "filter (\<lambda>x. id x = id u) (map url (documents db)) = [u]"
        using filter_unique [of id "map url (documents db)" u] by simp
      then show ?thesis using urls by simp
    qed
    then have one: "length (filter (\<lambda>x. url x = u) ?rows) = 1"
      by (simp add: filter_map comp_def)
    from place i one show "fst ?res \<noteq> Inr INSERTED \<and>
      (\<exists>i row. i < length (documents db) \<and> documents db ! i = r \<and>
         ?rows = (documents db)[i := row] \<and>
         doc_id row = doc_id r \<and> url row = u \<and>
         (content_hash r \<noteq> h \<longrightarrow> content row = c \<and> content_hash row = h) \<and>
         (content_hash r = h \<longrightarrow> row = r)) \<and>
      length (filter (\<lambda>x. url x = u) ?rows) = 1"
      by blast
  qed
  have run: "distinct (map url (documents (save_documents calls empty_database)))"
    using table_constraints_save_documents [OF table_constraints_empty, of calls]
    by (simp add: table_constraints_def)
  from keep inplace run show ?thesis by blast
qed

theorem save_document_url_unique_witness:
  "length (documents (snd (save_document (env_at 5) ''react.dev'' ''https://react.dev/hooks''
      ''/hooks'' ''# React Hooks, second edition'' ''h9'' 0 sample_database))) = 3 \<and>
   fst (save_document (env_at 5) ''react.dev'' ''https://react.dev/hooks''
      ''/hooks'' ''# React Hooks, second edition'' ''h9'' 0 sample_database) \<noteq> Inr INSERTED \<and>
   distinct (map url (documents (snd (save_document (env_at 5) ''react.dev''
      ''https://react.dev/hooks'' ''/hooks'' ''# React Hooks, second edition'' ''h9'' 0
      sample_database)))) \<and>
   distinct (map url (documents (save_documents
      [(env_at 1, ''react.dev'', ''https://react.dev/hooks'', ''/hooks'', ''# React Hooks'', ''h1'', 0),
       (env_at 2, ''react.dev'', ''https://react.dev/hooks'', ''/hooks'', ''# React'', ''h2'', 0)]
      empty_database)))"
proof -
  let ?rows = "documents (snd (save_document (env_at 5) ''react.dev'' ''https://react.dev/hooks''
      ''/hooks'' ''# React Hooks, second edition'' ''h9'' 0 sample_database))"
  have a: "table_constraints sample_database \<and> react_hooks \<in> set (documents sample_database) \<and>
      url react_hooks = ''https://react.dev/hooks''"
    by (simp add: table_constraints_sample sample_rows)
  note fact = save_document_url_unique [of sample_database "env_at 5" "''react.dev''"
      "''https://react.dev/hooks''" "''/hooks''" "''# React Hooks, second edition''" "''h9''" 0
      react_hooks
      "[(env_at 1, ''react.dev'', ''https://react.dev/hooks'', ''/hooks'', ''# React Hooks'', ''h1'', 0),
        (env_at 2, ''react.dev'', ''https://react.dev/hooks'', ''/hooks'', ''# React'', ''h2'', 0)]"]
  from a fact obtain i row where "?rows = (documents sample_database)[i := row]"
    by blast
  then have "length ?rows = length (documents sample_database)"
    by simp
  then have "length ?rows = 3"
    by (simp add: sample_rows)
  with a fact show ?thesis by blast
qed

text \<open>
  Claim C7 as stated fails in one clause: a call that observes an existing url again with
  the stored hash does not update the row. In the sample table the row of
  \<^verbatim>\<open>https://vue.io/guide\<close> was written at time 3 with depth 0; a call at time 9 for that
  url with the stored hash and depth 4 returns \<^verbatim>\<open>SKIPPED\<close> and leaves the database,
  and so the row with its depth and its \<^verbatim>\<open>updated_at\<close>, as it was.
\<close>

theorem save_document_same_hash_leaves_row:
  "save_document (env_at 9) ''vue.io'' ''https://vue.io/guide'' ''/guide'' ''# Vue Guide''
     ''h3'' 4 sample_database = (Inr SKIPPED, sample_database) \<and>
   get_document_by_url ''https://vue.io/guide'' sample_database = Inr (Some vue_guide) \<and>
   depth vue_guide = 0 \<and> updated_at vue_guide = 3 \<and> now (env_at 9) = 9"
proof -
  have du: "distinct (map url (documents sample_database))"
    using table_constraints_sample by (simp add: table_constraints_def)
  have here: "vue_guide \<in> set (documents sample_database)"
    by (simp add: sample_rows)
  have "save_document (env_at 9) ''vue.io'' ''https://vue.io/guide'' ''/guide'' ''# Vue Guide''
     ''h3'' 4 sample_database = (Inr SKIPPED, sample_database)"
    using du here by (simp add: save_document_skip)
  moreover have "get_document_by_url ''https://vue.io/guide'' sample_database =
      Inr (Some vue_guide)"
    using du here by (simp add: get_document_by_url_def select_by_url_one)
  moreover have "depth vue_guide = 0 \<and> updated_at vue_guide = 3"
    by (simp add: vue_guide_def)
  ultimately show ?thesis by simp
qed

section \<open>The domain and path of an existing row\<close>

text \<open>
  Claim C9. When a row has the url of the call, \<^verbatim>\<open>save_document\<close> does not use its
  \<^verbatim>\<open>domain\<close> and \<^verbatim>\<open>path\<close> arguments: the domains and the paths of the rows of the table
  are the same after the call. So the row of a url keeps the domain and path of the call
  that inserted it: after a first call that finds no row for the url and a second call for
  the url with any domain, path, content and hash, the stored row has the domain and path
  of the first call.
\<close>

theorem save_document_keeps_domain_and_path:
  "(r \<in> set (documents db) \<and> url r = u \<longrightarrow>
      map domain (documents (snd (save_document e d u p c h dep db))) = map domain (documents db) \<and>
      map path (documents (snd (save_document e d u p c h dep db))) = map path (documents db)) \<and>
   (table_constraints db \<and> (\<forall>x \<in> set (documents db). url x \<noteq> u) \<longrightarrow>
      (\<exists>row. get_document_by_url u
                (snd (save_document e' d' u p' c' h' dep'
                        (snd (save_document e d u p c h dep db)))) = Inr (Some row) \<and>
             domain row = d \<and> path row = p))"
proof -
  have kept: "r \<in> set (documents db) \<and> url r = u \<longrightarrow>
      map domain (documents (snd (save_document e d u p c h dep db))) = map domain (documents db) \<and>
      map path (documents (snd (save_document e d u p c h dep db))) = map path (documents db)"
    using existing_row_not_inserted(2,3) [of r db u e d p c h dep] by blast
  have first: "table_constraints db \<and> (\<forall>x \<in> set (documents db). url x \<noteq> u) \<longrightarrow>
      (\<exists>row. get_document_by_url u
                (snd (save_document e' d' u p' c' h' dep'
                        (snd (save_document e d u p c h dep db)))) = Inr (Some row) \<and>
             domain row = d \<and> path row = p)"
  proof
    assume a: "table_constraints db \<and> (\<forall>x \<in> set (documents db). url x \<noteq> u)"
    let ?new = "new_document e (uuid_counter db) d u p c h dep"
    let ?db1 = "snd (save_document e d u p c h dep db)"
    have new: "url ?new = u" "domain ?new = d" "path ?new = p"
      by (simp_all add: new_document_def)
    have "documents ?db1 = documents db @ [?new]"
      using a by (simp add: save_document_insert)
    then have mem: "?new \<in> set (documents ?db1)" by simp
    have tc1: "table_constraints ?db1"
      using a by (simp add: table_constraints_save)
    then have du1: "distinct (map url (documents ?db1))"
      by (simp add: table_constraints_def)
    show "\<exists>row. get_document_by_url u (snd (save_document e' d' u p' c' h' dep' ?db1)) =
        Inr (Some row) \<and> domain row = d \<and> path row = p"
    proof (cases "content_hash ?new = h'")
      case True
      then have "snd (save_document e' d' u p' c' h' dep' ?db1) = ?db1"
        using du1 mem new(1) by (simp add: save_document_skip)
      moreover have "get_document_by_url u ?db1 = Inr (Some ?new)"
        using du1 mem new(1) by (simp add: get_document_by_url_def select_by_url_one)
      ultimately show ?thesis using new by simp
    next
      case False
      then have "snd (save_document e' d' u p' c' h' dep' ?db1) =
          update_document e' ?new c' h' dep' ?db1"
        using du1 mem new(1) by (simp add: save_document_update)
      moreover have "get_document_by_url u (update_document e' ?new c' h' dep' ?db1) =
          Inr (Some (assign_content e' c' h' dep' ?new))"
        using tc1 mem new(1) by (rule stored_after_update)
      ultimately show ?thesis using new by simp
    qed
  qed
  from kept first show ?thesis by blast
qed

theorem save_document_keeps_domain_and_path_witness:
  "map domain (documents (snd (save_document (env_at 5) ''other.org'' ''https://react.dev/hooks''
      ''/elsewhere'' ''# React Hooks, second edition'' ''h9'' 0 sample_database))) =
     [''react.dev'', ''react.dev'', ''vue.io''] \<and>
   map path (documents (snd (save_document (env_at 5) ''other.org'' ''https://react.dev/hooks''
      ''/elsewhere'' ''# React Hooks, second edition'' ''h9'' 0 sample_database))) =
     [''/hooks'', ''/components'', ''/guide'']"
proof -
  have a: "react_hooks \<in> set (documents sample_database) \<and>
      url react_hooks = ''https://react.dev/hooks''"
    by (simp add: sample_rows)
  have "map domain (documents sample_database) = [''react.dev'', ''react.dev'', ''vue.io'']"
    "map path (documents sample_database) = [''/hooks'', ''/components'', ''/guide'']"
    by (simp_all add: sample_database_def react_hooks_def react_components_def vue_guide_def)
  with a
    save_document_keeps_domain_and_path [of react_hooks sample_database
      "''https://react.dev/hooks''" "env_at 5" "''other.org''" "''/elsewhere''"
      "''# React Hooks, second edition''" "''h9''" 0]
  show ?thesis by simp
qed

section \<open>Searching by content\<close>


text \<open>
  The same under the folding of the \<^verbatim>\<open>C\<close> locale, for the term \<^verbatim>\<open>react\<close> and the
  sample table: the two rows of \<^verbatim>\<open>react.dev\<close> are returned, and neither is active.
\<close>

lemma search_documents_sample_inactive_rows:
  "search_documents c_locale_lower ''react'' (Some ''react.dev'') 10 sample_database =
     Inr [react_hooks, react_components] \<and>
   generation_active react_hooks = False \<and> generation_active react_components = False"
  by (simp add: search_documents_filter sample_rows domain_given_def icontains_def
      c_locale_lower_def c_locale_lower_char_def react_hooks_def react_components_def
      vue_guide_def)

text \<open>
  Claim C10. With the empty string as domain, \<^verbatim>\<open>if domain:\<close> is false and no condition on
  the domain is added: the search is the search with the domain omitted, for every term,
  limit, table and folding. In the sample table such a search returns rows of both
  domains.
\<close>

theorem search_documents_empty_domain:
  "search_documents to_lower q (Some '''') limit db = search_documents to_lower q None limit db \<and>
   search_documents c_locale_lower ''#'' (Some '''') 10 sample_database =
     Inr [react_hooks, react_components, vue_guide] \<and>
   map domain [react_hooks, react_components, vue_guide] =
     [''react.dev'', ''react.dev'', ''vue.io'']"
  by (simp add: search_documents_filter domain_given_def)
    (simp add: sample_rows icontains_def c_locale_lower_def c_locale_lower_char_def
      react_hooks_def react_components_def vue_guide_def)

theorem search_documents_empty_domain_witness:
  "search_documents c_locale_lower ''vue'' (Some '''') 10 sample_database = Inr [vue_guide]"
proof -
  have "search_documents c_locale_lower ''vue'' None 10 sample_database = Inr [vue_guide]"
    by (simp add: search_documents_filter sample_rows domain_given_def icontains_def
        c_locale_lower_def c_locale_lower_char_def react_hooks_def react_components_def
        vue_guide_def)
  with search_documents_empty_domain [of c_locale_lower "''vue''" 10 sample_database]
  show ?thesis by simp
qed

section \<open>The generation invariant\<close>




end
